theory Spec2Isabelle
  imports Main "HOL-Library.Sublist"
begin

section \<open>Python strings\<close>

text \<open>
  The script \<^verbatim>\<open>.github/workflows/css_check.py\<close> works on Python \<^verbatim>\<open>str\<close> values: path
  names, file contents and regular-expression matches. They are modelled as \<^typ>\<open>string\<close>;
  one \<^typ>\<open>char\<close> stands for one code point, so the model covers text whose code points are
  below 256.
\<close>

definition startswith :: "string \<Rightarrow> string \<Rightarrow> bool" where
  \<comment> \<open>\<^verbatim>\<open>s.startswith(p)\<close>\<close>
  "startswith s p = prefix p s"

definition endswith :: "string \<Rightarrow> string \<Rightarrow> bool" where
  \<comment> \<open>\<^verbatim>\<open>s.endswith(p)\<close>\<close>
  "endswith s p = suffix p s"

definition contains :: "string \<Rightarrow> string \<Rightarrow> bool" where
  \<comment> \<open>\<^verbatim>\<open>sub in s\<close>: \<open>sub\<close> occurs in \<open>s\<close> as a contiguous piece\<close>
  "contains s sub = sublist sub s"

fun split_on :: "char \<Rightarrow> string \<Rightarrow> string list" where
  \<comment> \<open>\<^verbatim>\<open>s.split(sep)\<close> for a one-character separator\<close>
  "split_on sep [] = [[]]"
| "split_on sep (c # cs) =
     (if c = sep then [] # split_on sep cs
      else (case split_on sep cs of [] \<Rightarrow> [[c]] | w # ws \<Rightarrow> (c # w) # ws))"

fun str_join :: "string \<Rightarrow> string list \<Rightarrow> string" where
  \<comment> \<open>\<^verbatim>\<open>sep.join(xs)\<close>\<close>
  "str_join sep [] = []"
| "str_join sep [x] = x"
| "str_join sep (x # y # ys) = x @ sep @ str_join sep (y # ys)"

fun rstrip :: "char \<Rightarrow> string \<Rightarrow> string" where
  \<comment> \<open>\<^verbatim>\<open>s.rstrip(c)\<close> for a single character\<close>
  "rstrip c s = rev (dropWhile (\<lambda>x. x = c) (rev s))"

section \<open>The path functions of \<^verbatim>\<open>os.path\<close> (POSIX)\<close>

definition path_join :: "string \<Rightarrow> string \<Rightarrow> string" where
  \<comment> \<open>\<^verbatim>\<open>os.path.join(a, b)\<close>\<close>
  "path_join a b =
     (if startswith b ''/'' then b
      else if a = [] \<or> endswith a ''/'' then a @ b
      else a @ ''/'' @ b)"

definition dirname :: "string \<Rightarrow> string" where
  \<comment> \<open>\<^verbatim>\<open>os.path.dirname(p)\<close>: everything up to the last slash, trailing slashes
      stripped unless the head is made of slashes only\<close>
  "dirname p =
     (let hd_part = rev (dropWhile (\<lambda>x. x \<noteq> CHR ''/'') (rev p))
      in if hd_part \<noteq> [] \<and> hd_part \<noteq> replicate (length hd_part) CHR ''/''
         then rstrip CHR ''/'' hd_part else hd_part)"

definition normpath_step :: "nat \<Rightarrow> string list \<Rightarrow> string \<Rightarrow> string list" where
  \<comment> \<open>one round of the loop over the components in \<^verbatim>\<open>os.path.normpath\<close>\<close>
  "normpath_step initial_slashes new_comps cmp =
     (if cmp = [] \<or> cmp = ''.'' then new_comps
      else if cmp \<noteq> ''..'' \<or> (initial_slashes = 0 \<and> new_comps = [])
              \<or> (new_comps \<noteq> [] \<and> last new_comps = ''..'')
        then new_comps @ [cmp]
      else if new_comps \<noteq> [] then butlast new_comps
      else new_comps)"

definition normpath :: "string \<Rightarrow> string" where
  \<comment> \<open>\<^verbatim>\<open>os.path.normpath(path)\<close>\<close>
  "normpath path =
     (if path = [] then ''.''
      else
        let initial_slashes =
              (if startswith path ''/''
               then (if startswith path ''//'' \<and> \<not> startswith path ''///'' then 2 else 1)
               else (0::nat));
            comps = foldl (normpath_step initial_slashes) [] (split_on CHR ''/'' path);
            p = replicate initial_slashes CHR ''/'' @ str_join ''/'' comps
        in if p = [] then ''.'' else p)"

definition abspath :: "string \<Rightarrow> string \<Rightarrow> string" where
  \<comment> \<open>\<^verbatim>\<open>os.path.abspath(path)\<close>, with the process's working directory \<open>cwd\<close>\<close>
  "abspath cwd path =
     normpath (if startswith path ''/'' then path else path_join cwd path)"

section \<open>The file system\<close>

text \<open>
  The script only reads the file system: it walks a directory tree, asks whether a path
  exists, and reads files. The tree is a value; there are no symbolic links in the model.
\<close>

datatype exn = IOError string | UnicodeDecodeError string
  \<comment> \<open>the two exceptions \<^verbatim>\<open>check_files\<close> catches, each with its message \<^verbatim>\<open>str(e)\<close>\<close>

datatype node =
    File "exn + string"
      \<comment> \<open>what \<^verbatim>\<open>open(p, "r", encoding="utf-8").read()\<close> gives: the text, or the exception\<close>
  | Dir bool "(string \<times> node) list"
      \<comment> \<open>whether the directory can be listed, and its entries in listing order\<close>

record env =
  fs_root :: node      \<comment> \<open>the directory \<^verbatim>\<open>/\<close>\<close>
  cwd :: string        \<comment> \<open>\<^verbatim>\<open>os.getcwd()\<close>\<close>

fun is_dir :: "node \<Rightarrow> bool" where
  "is_dir (Dir _ _) = True"
| "is_dir (File _) = False"

fun resolve :: "node list \<Rightarrow> string list \<Rightarrow> node list option" where
  \<comment> \<open>path resolution, one component at a time; the first argument is the directory
      reached so far followed by its ancestors up to the root\<close>
  "resolve stack [] = Some stack"
| "resolve [] (c # cs) = None"
| "resolve (File d # up) (c # cs) = None"
| "resolve (Dir r entries # up) (c # cs) =
     (if c = [] \<or> c = ''.'' then resolve (Dir r entries # up) cs
      else if c = ''..'' then resolve (if up = [] then [Dir r entries] else up) cs
      else (case map_of entries c of
              None \<Rightarrow> None
            | Some n \<Rightarrow> resolve (n # Dir r entries # up) cs))"

definition lookup :: "env \<Rightarrow> string \<Rightarrow> node option" where
  \<comment> \<open>the node a path names, relative paths starting at the working directory\<close>
  "lookup e path =
     (if path = [] then None
      else
        (case (if startswith path ''/'' then Some [fs_root e]
               else resolve [fs_root e] (split_on CHR ''/'' (cwd e))) of
           None \<Rightarrow> None
         | Some start \<Rightarrow>
             (case resolve start (split_on CHR ''/'' path) of
                Some (n # _) \<Rightarrow> Some n
              | _ \<Rightarrow> None)))"

definition path_exists :: "env \<Rightarrow> string \<Rightarrow> bool" where
  \<comment> \<open>\<^verbatim>\<open>os.path.exists(path)\<close>\<close>
  "path_exists e path = (lookup e path \<noteq> None)"

definition read_file :: "env \<Rightarrow> string \<Rightarrow> exn + string" where
  \<comment> \<open>\<^verbatim>\<open>open(path, "r", encoding="utf-8")\<close> followed by \<^verbatim>\<open>f.read()\<close>; the message of
      a failed \<^verbatim>\<open>open\<close> names the path in single quotes\<close>
  "read_file e path =
     (case lookup e path of
        None \<Rightarrow>
          Inl (IOError (''[Errno 2] No such file or directory: '' @ [CHR 0x27] @ path @ [CHR 0x27]))
      | Some (Dir _ _) \<Rightarrow>
          Inl (IOError (''[Errno 21] Is a directory: '' @ [CHR 0x27] @ path @ [CHR 0x27]))
      | Some (File d) \<Rightarrow> d)"

fun walk :: "string \<Rightarrow> node \<Rightarrow> (string \<times> string list \<times> string list) list"
  and walk_entries :: "string \<Rightarrow> (string \<times> node) list \<Rightarrow> (string \<times> string list \<times> string list) list"
where
  \<comment> \<open>\<^verbatim>\<open>os.walk(top)\<close>, top-down, with \<^verbatim>\<open>onerror=None\<close>: a directory that cannot be
      listed yields nothing and raises nothing\<close>
  "walk tp (File d) = []"
| "walk tp (Dir readable entries) =
     (if \<not> readable then []
      else (tp,
            map fst (filter (\<lambda>en. is_dir (snd en)) entries),
            map fst (filter (\<lambda>en. \<not> is_dir (snd en)) entries))
           # walk_entries tp entries)"
| "walk_entries tp [] = []"
| "walk_entries tp (en # es) =
     (if is_dir (snd en) then walk (path_join tp (fst en)) (snd en) else [])
     @ walk_entries tp es"

definition os_walk :: "env \<Rightarrow> string \<Rightarrow> (string \<times> string list \<times> string list) list" where
  \<comment> \<open>\<^verbatim>\<open>os.walk(directory)\<close>: the triples \<open>(root, dirs, files)\<close> in the order they are
      yielded; nothing when \<open>directory\<close> is missing, is a file or cannot be listed\<close>
  "os_walk e directory =
     (case lookup e directory of None \<Rightarrow> [] | Some n \<Rightarrow> walk directory n)"

section \<open>Regular expressions\<close>

text \<open>
  The two patterns of the script are embedded shallowly: a pattern is a function from a
  matching state (the text of group 1 so far, and the input still to read) to the list of
  states in which a match of the pattern can end, in the order in which a backtracking
  matcher tries them. The first element is the match Python's \<^verbatim>\<open>re\<close> reports.
\<close>

type_synonym mstate = "string option \<times> string"
type_synonym rx = "mstate \<Rightarrow> mstate list"

definition rx_char :: "(char \<Rightarrow> bool) \<Rightarrow> rx" where
  \<comment> \<open>one character of a class\<close>
  "rx_char P st = (case snd st of [] \<Rightarrow> [] | c # r \<Rightarrow> if P c then [(fst st, r)] else [])"

definition rx_seq :: "rx \<Rightarrow> rx \<Rightarrow> rx" where
  \<comment> \<open>\<open>a\<close> followed by \<open>b\<close>: every way to go on after the first way through \<open>a\<close>
      comes before the second way through \<open>a\<close>\<close>
  "rx_seq a b st = concat (map b (a st))"

fun rx_lit :: "string \<Rightarrow> rx" where
  \<comment> \<open>literal text\<close>
  "rx_lit [] st = [st]"
| "rx_lit (c # cs) st = rx_seq (rx_char (\<lambda>x. x = c)) (rx_lit cs) st"

definition rx_group :: "rx \<Rightarrow> rx" where
  \<comment> \<open>the capturing group \<^verbatim>\<open>(a)\<close>: group 1 becomes the text \<open>a\<close> has just read\<close>
  "rx_group a st =
     map (\<lambda>m. (Some (take (length (snd st) - length (snd m)) (snd st)), snd m)) (a st)"

definition rx_opt :: "rx \<Rightarrow> rx" where
  \<comment> \<open>greedy \<^verbatim>\<open>a?\<close>: with \<open>a\<close> first, without it last\<close>
  "rx_opt a st = a st @ [st]"

definition rx_rep3 :: "rx \<Rightarrow> rx" where
  \<comment> \<open>\<^verbatim>\<open>a{3}\<close>\<close>
  "rx_rep3 a = rx_seq a (rx_seq a a)"

definition rx_rep12 :: "rx \<Rightarrow> rx" where
  \<comment> \<open>greedy \<^verbatim>\<open>a{1,2}\<close>\<close>
  "rx_rep12 a = rx_seq a (rx_opt a)"

fun rx_star_greedy :: "(char \<Rightarrow> bool) \<Rightarrow> rx" where
  \<comment> \<open>greedy \<^verbatim>\<open>c*\<close> over a character class: the longest run first\<close>
  "rx_star_greedy P (g, []) = [(g, [])]"
| "rx_star_greedy P (g, c # r) =
     (if P c then rx_star_greedy P (g, r) @ [(g, c # r)] else [(g, c # r)])"

fun rx_star_lazy :: "(char \<Rightarrow> bool) \<Rightarrow> rx" where
  \<comment> \<open>lazy \<^verbatim>\<open>c*?\<close> over a character class: the shortest run first\<close>
  "rx_star_lazy P (g, []) = [(g, [])]"
| "rx_star_lazy P (g, c # r) = (g, c # r) # (if P c then rx_star_lazy P (g, r) else [])"

definition rx_plus_greedy :: "(char \<Rightarrow> bool) \<Rightarrow> rx" where
  \<comment> \<open>greedy \<^verbatim>\<open>c+\<close>\<close>
  "rx_plus_greedy P = rx_seq (rx_char P) (rx_star_greedy P)"

definition rx_plus_lazy :: "(char \<Rightarrow> bool) \<Rightarrow> rx" where
  \<comment> \<open>lazy \<^verbatim>\<open>c+?\<close>\<close>
  "rx_plus_lazy P = rx_seq (rx_char P) (rx_star_lazy P)"

definition rx_match :: "rx \<Rightarrow> string \<Rightarrow> mstate option" where
  \<comment> \<open>the match of the pattern at the start of \<open>s\<close>, if there is one\<close>
  "rx_match p s = (case p (None, s) of [] \<Rightarrow> None | m # _ \<Rightarrow> Some m)"

function finditer :: "rx \<Rightarrow> string \<Rightarrow> (string \<times> string option) list" where
  \<comment> \<open>the non-overlapping matches from left to right, each with its whole text and its
      group 1; the search goes on where the last match ended. Neither pattern of the script
      matches the empty string (\<open>embedded_css_pattern_consumes\<close>,
      \<open>css_import_pattern_consumes\<close>), so a match that reads nothing never arises; the
      model moves one character on there.\<close>
  "finditer p [] = []"
| "finditer p (c # cs) =
     (case rx_match p (c # cs) of
        None \<Rightarrow> finditer p cs
      | Some m \<Rightarrow>
          if length (snd m) \<le> length cs
          then (take (length (c # cs) - length (snd m)) (c # cs), fst m) # finditer p (snd m)
          else finditer p cs)"
  by pat_completeness auto
termination
  by (relation "measure (\<lambda>(p, s). length s)") auto

definition re_findall :: "rx \<Rightarrow> string \<Rightarrow> string list" where
  \<comment> \<open>\<^verbatim>\<open>re.findall(pattern, s)\<close> for a pattern with exactly one group: the list of the
      texts of group 1, one per match (the empty string for a group that took no part)\<close>
  "re_findall p s = map (\<lambda>m. case snd m of None \<Rightarrow> [] | Some g \<Rightarrow> g) (finditer p s)"

definition is_hex :: "char \<Rightarrow> bool" where
  \<comment> \<open>\<^verbatim>\<open>[0-9a-fA-F]\<close>\<close>
  "is_hex c = (c \<in> set ''0123456789abcdefABCDEF'')"

definition is_space :: "char \<Rightarrow> bool" where
  \<comment> \<open>\<^verbatim>\<open>\s\<close> on \<^verbatim>\<open>str\<close>: the white space among the code points below 256\<close>
  "is_space c =
     (c \<in> {CHR 0x09, CHR 0x0A, CHR 0x0B, CHR 0x0C, CHR 0x0D, CHR 0x1C, CHR 0x1D, CHR 0x1E,
            CHR 0x1F, CHR 0x20, CHR 0x85, CHR 0xA0})"

definition is_dot :: "char \<Rightarrow> bool" where
  \<comment> \<open>\<^verbatim>\<open>.\<close>: any character but the newline\<close>
  "is_dot c = (c \<noteq> CHR 0x0A)"

definition is_quote :: "char \<Rightarrow> bool" where
  \<comment> \<open>\<^verbatim>\<open>["\']\<close>: a double or a single quote\<close>
  "is_quote c = (c = CHR 0x22 \<or> c = CHR 0x27)"

definition embedded_css_pattern :: rx where
  \<comment> \<open>\<^verbatim>\<open>#([0-9a-fA-F]{3}){1,2}\<close>\<close>
  "embedded_css_pattern =
     rx_seq (rx_lit ''#'') (rx_rep12 (rx_group (rx_rep3 (rx_char is_hex))))"

definition css_import_pattern :: rx where
  \<comment> \<open>\<^verbatim>\<open>import\s+.*?["\'](.+?\.css)["\']\<close>\<close>
  "css_import_pattern =
     rx_seq (rx_lit ''import'')
    (rx_seq (rx_plus_greedy is_space)
    (rx_seq (rx_star_lazy is_dot)
    (rx_seq (rx_char is_quote)
    (rx_seq (rx_group (rx_seq (rx_plus_lazy is_dot) (rx_lit ''.css'')))
            (rx_char is_quote)))))"

section \<open>The script\<close>

datatype Violation = Violation string string string
  \<comment> \<open>\<^verbatim>\<open>Violation(file_path, css_file, reason)\<close>\<close>

datatype CorrectImport = CorrectImport string string
  \<comment> \<open>\<^verbatim>\<open>CorrectImport(file_path, css_file)\<close>\<close>

datatype EmbeddedViolation = EmbeddedViolation string "string list"
  \<comment> \<open>\<^verbatim>\<open>EmbeddedViolation(file_path, css_codes)\<close>\<close>

record CSSCheckResult =
  violations :: "Violation list"
  correct_imports :: "CorrectImport list"
  embedded_violations :: "EmbeddedViolation list"

text \<open>
  While it runs, \<^verbatim>\<open>check_files\<close> holds the three lists it will return and prints
  diagnostics; \<open>printed\<close> collects the printed texts, one per call of \<^verbatim>\<open>print\<close>.
\<close>

record scan_state = CSSCheckResult +
  printed :: "string list"

definition check_embedded_css :: "string \<Rightarrow> string list" where
  "check_embedded_css content = re_findall embedded_css_pattern content"

fun str_of_exn :: "exn \<Rightarrow> string" where
  \<comment> \<open>\<^verbatim>\<open>str(e)\<close>\<close>
  "str_of_exn (IOError msg) = msg"
| "str_of_exn (UnicodeDecodeError msg) = msg"

definition import_step ::
  "env \<Rightarrow> string \<Rightarrow> string list \<Rightarrow> string \<Rightarrow> scan_state \<Rightarrow> string \<Rightarrow> scan_state" where
  \<comment> \<open>the body of \<^verbatim>\<open>for css_file in css_imports\<close>\<close>
  "import_step e directory allowed_css_patterns file_path st css_file =
     (let css_file_path = path_join (dirname file_path) css_file;
          css_file_path =
            (if \<not> path_exists e css_file_path
             then (let src_dir = abspath (cwd e) directory in path_join src_dir css_file)
             else css_file_path)
      in if \<not> path_exists e css_file_path
           then st\<lparr>violations := violations st @ [Violation file_path css_file ''File not found'']\<rparr>
         else if \<exists>pattern \<in> set allowed_css_patterns. endswith css_file pattern
           then st\<lparr>correct_imports := correct_imports st @ [CorrectImport file_path css_file]\<rparr>
         else st\<lparr>violations := violations st @ [Violation file_path css_file ''Invalid import'']\<rparr>)"

definition file_step ::
  "env \<Rightarrow> string \<Rightarrow> string list \<Rightarrow> string list \<Rightarrow> string \<Rightarrow> scan_state \<Rightarrow> string \<Rightarrow> scan_state" where
  \<comment> \<open>the body of \<^verbatim>\<open>for file in files\<close>; \<open>exclude_files\<close> is the normalized list\<close>
  "file_step e directory exclude_files allowed_css_patterns root st file =
     (let file_path = abspath (cwd e) (path_join root file)
      in if file_path \<in> set exclude_files then st
         else if (endswith file ''.ts'' \<or> endswith file ''.tsx'') \<and> \<not> contains root ''test''
           then (case read_file e file_path of
                   Inl ex \<Rightarrow>
                     st\<lparr>printed := printed st
                          @ [''Error reading file '' @ file_path @ '': '' @ str_of_exn ex]\<rparr>
                 | Inr content \<Rightarrow>
                     (let css_imports = re_findall css_import_pattern content;
                          st1 = foldl (import_step e directory allowed_css_patterns file_path)
                                  st css_imports;
                          embedded_css = check_embedded_css content
                      in if embedded_css \<noteq> []
                         then st1\<lparr>embedded_violations := embedded_violations st1
                                @ [EmbeddedViolation file_path embedded_css]\<rparr>
                         else st1))
         else st)"

definition dir_step ::
  "env \<Rightarrow> string \<Rightarrow> string list \<Rightarrow> string list \<Rightarrow> string list \<Rightarrow> scan_state
     \<Rightarrow> string \<times> string list \<times> string list \<Rightarrow> scan_state" where
  \<comment> \<open>the body of \<^verbatim>\<open>for root, _, files in os.walk(directory)\<close>; both exclusion lists
      are the normalized ones\<close>
  "dir_step e directory exclude_files exclude_directories allowed_css_patterns st triple =
     (case triple of (root, dirs, files) \<Rightarrow>
        if \<exists>exclude_dir \<in> set exclude_directories. startswith root exclude_dir then st
        else foldl (file_step e directory exclude_files allowed_css_patterns root) st files)"

definition check_files ::
  "env \<Rightarrow> string \<Rightarrow> string list \<Rightarrow> string list \<Rightarrow> string list \<Rightarrow> scan_state" where
  \<comment> \<open>the three lists are the returned \<^verbatim>\<open>CSSCheckResult\<close>\<close>
  "check_files e directory exclude_files exclude_directories allowed_css_patterns =
     (let exclude_files = map (abspath (cwd e)) exclude_files;
          exclude_directories = map (abspath (cwd e)) exclude_directories
      in foldl (dir_step e directory exclude_files exclude_directories allowed_css_patterns)
           \<lparr>violations = [], correct_imports = [], embedded_violations = [], printed = []\<rparr>
           (os_walk e directory))"

text \<open>
  The command line as \<^verbatim>\<open>argparse\<close> reads it: \<^verbatim>\<open>--directory\<close> is required; a list flag
  that is absent is \<open>None\<close> and takes its default; \<^verbatim>\<open>--show_success\<close> is a switch.
\<close>

record argv =
  directory_flag :: string
  exclude_files_flag :: "string list option"
  exclude_directories_flag :: "string list option"
  allowed_css_patterns_flag :: "string list option"
  show_success_flag :: bool

fun flag_default :: "'a \<Rightarrow> 'a option \<Rightarrow> 'a" where
  "flag_default d None = d"
| "flag_default d (Some v) = v"

definition violation_line :: "Violation \<Rightarrow> string" where
  "violation_line v =
     (case v of Violation file_path css_file reason \<Rightarrow>
        ''- '' @ file_path @ '': '' @ css_file @ '' ('' @ reason @ '')'')"

definition embedded_line :: "EmbeddedViolation \<Rightarrow> string" where
  "embedded_line v =
     (case v of EmbeddedViolation file_path css_codes \<Rightarrow>
        ''- '' @ file_path @ '': '' @ str_join '', '' css_codes)"

definition correct_line :: "CorrectImport \<Rightarrow> string" where
  "correct_line i = (case i of CorrectImport file_path css_file \<Rightarrow> ''- '' @ file_path @ '': '' @ css_file)"

definition remediation :: string where
  "remediation =
     [CHR 0x0A] @ ''Please address the above CSS violations:'' @ [CHR 0x0A]
     @ ''1. For invalid CSS imports, ensure you'' @ [CHR 0x27]
     @ ''re using the correct import syntax and file paths.'' @ [CHR 0x0A]
     @ ''2. For embedded CSS, move the CSS to appropriate stylesheet files and import them correctly.'' @ [CHR 0x0A]
     @ ''3. Make sure to use only the allowed CSS patterns as specified in the script arguments.'' @ [CHR 0x0A]
     @ ''4. Check that all imported CSS files exist in the specified locations.'' @ [CHR 0x0A]"

definition report :: "bool \<Rightarrow> scan_state \<Rightarrow> string list \<times> int" where
  \<comment> \<open>\<^verbatim>\<open>main\<close> from \<^verbatim>\<open>output = []\<close> on: the texts printed and the exit code\<close>
  "report show_success result =
     (let output = [];
          exit_code = 0;
          (output, exit_code) =
            (if violations result \<noteq> []
             then (output @ [''CSS Import Violations:'']
                     @ map violation_line (violations result), 1)
             else (output, exit_code));
          (output, exit_code) =
            (if embedded_violations result \<noteq> []
             then (output @ [[CHR 0x0A] @ ''Embedded CSS Violations:'']
                     @ map embedded_line (embedded_violations result), 1)
             else (output, exit_code));
          out1 = (if output \<noteq> [] then [str_join [CHR 0x0A] output, remediation] else []);
          out2 =
            (if show_success \<and> correct_imports result \<noteq> []
             then ([CHR 0x0A] @ ''Correct CSS Imports:'')
                  # map correct_line (correct_imports result)
             else [])
      in (out1 @ out2, exit_code))"

definition main :: "env \<Rightarrow> argv \<Rightarrow> string list \<times> int" where
  \<comment> \<open>everything the process prints, and the code it passes to \<^verbatim>\<open>sys.exit\<close>\<close>
  "main e a =
     (let result =
            check_files e (directory_flag a)
              (flag_default [] (exclude_files_flag a))
              (flag_default [] (exclude_directories_flag a))
              (flag_default [''app.module.css''] (allowed_css_patterns_flag a));
          (out, exit_code) = report (show_success_flag a) result
      in (printed result @ out, exit_code))"

section \<open>Notions used in the statements\<close>

definition hex_run3 :: "string \<Rightarrow> bool" where
  \<comment> \<open>the text starts with three hexadecimal digits\<close>
  "hex_run3 r = (3 \<le> length r \<and> list_all is_hex (take 3 r))"

definition occurs_hex3 :: "string \<Rightarrow> bool" where
  \<comment> \<open>somewhere in the text a \<^verbatim>\<open>#\<close> is followed by three hexadecimal digits\<close>
  "occurs_hex3 s =
     (\<exists>pre ds post. s = pre @ CHR ''#'' # ds @ post \<and> length ds = 3 \<and> list_all is_hex ds)"

definition rx_consumes :: "nat \<Rightarrow> rx \<Rightarrow> bool" where
  \<comment> \<open>every match of the pattern reads at least \<open>n\<close> characters\<close>
  "rx_consumes n p = (\<forall>st. \<forall>m \<in> set (p st). length (snd m) + n \<le> length (snd st))"

datatype verdict = FileNotFound | Compliant | DisallowedPattern

definition spec_classify :: "env \<Rightarrow> string \<Rightarrow> string list \<Rightarrow> string \<Rightarrow> string \<Rightarrow> verdict" where
  \<comment> \<open>the classification of one stylesheet reference in the words of the specification
      (section 4.1, import resolution and classification, steps 1 to 4): the first candidate
      is the reference resolved against the directory of the source file, the second the
      reference resolved against the scan root\<close>
  "spec_classify e directory allowed file_path ref =
     (if \<not> path_exists e (path_join (dirname file_path) ref)
         \<and> \<not> path_exists e (path_join (abspath (cwd e) directory) ref)
      then FileNotFound
      else if \<exists>suffix_entry \<in> set allowed. endswith ref suffix_entry then Compliant
      else DisallowedPattern)"

definition traversable :: "env \<Rightarrow> string \<Rightarrow> bool" where
  \<comment> \<open>the path names a directory that can be listed\<close>
  "traversable e directory =
     (case lookup e directory of Some (Dir readable entries) \<Rightarrow> readable | _ \<Rightarrow> False)"

definition no_findings :: scan_state where
  \<comment> \<open>the state \<^verbatim>\<open>check_files\<close> starts from: three empty lists, nothing printed\<close>
  "no_findings =
     \<lparr>violations = [], correct_imports = [], embedded_violations = [], printed = []\<rparr>"

definition findings ::
  "scan_state \<Rightarrow> Violation list \<times> CorrectImport list \<times> EmbeddedViolation list" where
  \<comment> \<open>the three result sequences of a state, without the printed text\<close>
  "findings st = (violations st, correct_imports st, embedded_violations st)"

definition grows :: "scan_state \<Rightarrow> scan_state \<Rightarrow> bool" where
  \<comment> \<open>the second state keeps every entry and every printed text of the first, in place\<close>
  "grows st st' =
     (prefix (violations st) (violations st') \<and> prefix (correct_imports st) (correct_imports st')
      \<and> prefix (embedded_violations st) (embedded_violations st')
      \<and> prefix (printed st) (printed st'))"

subsection \<open>A small file system for concrete runs\<close>

definition example_fs :: node where
  "example_fs =
     Dir True [(''w'', Dir True
       [(''src'', Dir True
          [(''App.test.tsx'',
              File (Inr ''import 'a.css';import 't.css';import 'm.css';#fff'')),
           (''a.css'', File (Inr [])),
           (''t.css'', File (Inr [])),
           (''gen'', Dir True
              [(''b.ts'', File (Inr ''color: #1A2b3C;'')),
               (''c.ts'',
                  File (Inl (IOError (''[Errno 13] Permission denied: '/w/src/gen/c.ts''
                                      @ [CHR 0x27])))),
               (''d.ts'', File (Inr ''#abc''))]),
           (''test'', Dir True [(''Widget.tsx'', File (Inr ''#abc''))])]),
        (''ok'', Dir True
          [(''Ok.tsx'', File (Inr ''import './app.module.css';'')),
           (''app.module.css'', File (Inr []))]),
        (''locked'', Dir False [(''x.ts'', File (Inr ''#abc''))])])]"

definition example_env :: env where
  "example_env = \<lparr>fs_root = example_fs, cwd = ''/w''\<rparr>"

definition example_argv :: "string \<Rightarrow> argv" where
  \<comment> \<open>\<^verbatim>\<open>--directory d --show_success\<close>\<close>
  "example_argv d =
     \<lparr>directory_flag = d, exclude_files_flag = None, exclude_directories_flag = None,
      allowed_css_patterns_flag = None, show_success_flag = True\<rparr>"

section \<open>Lemmas\<close>

subsection \<open>The colour pattern\<close>

lemma rx_rep3_hex:
  "rx_rep3 (rx_char is_hex) (g, s) = (if hex_run3 s then [(g, drop 3 s)] else [])"
proof (cases s)
  case Nil
  then show ?thesis by (simp add: rx_rep3_def rx_seq_def rx_char_def hex_run3_def)
next
  case s1: (Cons a s1)
  show ?thesis
  proof (cases s1)
    case Nil
    with s1 show ?thesis by (simp add: rx_rep3_def rx_seq_def rx_char_def hex_run3_def)
  next
    case s2: (Cons b s2)
    show ?thesis
    proof (cases s2)
      case Nil
      with s1 s2 show ?thesis by (simp add: rx_rep3_def rx_seq_def rx_char_def hex_run3_def)
    next
      case (Cons c s3)
      with s1 s2 show ?thesis by (simp add: rx_rep3_def rx_seq_def rx_char_def hex_run3_def)
    qed
  qed
qed

lemma rx_group_hex:
  "rx_group (rx_rep3 (rx_char is_hex)) (g, s) = (if hex_run3 s then [(Some (take 3 s), drop 3 s)] else [])"
  by (simp add: rx_group_def rx_rep3_hex hex_run3_def min_def)

lemma embedded_css_pattern_eq:
  "embedded_css_pattern (g, s) =
     (case s of [] \<Rightarrow> []
      | c # r \<Rightarrow>
          if c = CHR ''#'' \<and> hex_run3 r
          then (if hex_run3 (drop 3 r) then [(Some (take 3 (drop 3 r)), drop 6 r)] else [])
               @ [(Some (take 3 r), drop 3 r)]
          else [])"
  by (cases s) (simp_all add: embedded_css_pattern_def rx_seq_def rx_char_def rx_rep12_def rx_opt_def rx_group_hex)

lemma rx_match_embedded:
  "rx_match embedded_css_pattern s =
     (case s of [] \<Rightarrow> None
      | c # r \<Rightarrow>
          if c = CHR ''#'' \<and> hex_run3 r
          then (if hex_run3 (drop 3 r) then Some (Some (take 3 (drop 3 r)), drop 6 r)
                else Some (Some (take 3 r), drop 3 r))
          else None)"
  by (simp add: rx_match_def embedded_css_pattern_eq split: list.splits)


lemma hex_run3_cross: "hex_run3 (a @ CHR ''#'' # b) \<Longrightarrow> hex_run3 a"
proof -
  assume h: "hex_run3 (a @ CHR ''#'' # b)"
  have nh: "\<not> is_hex CHR ''#''" by (simp add: is_hex_def)
  show ?thesis
  proof (cases "3 \<le> length a")
    case True
    with h show ?thesis by (simp add: hex_run3_def)
  next
    case False
    then have "CHR ''#'' \<in> set (take 3 (a @ CHR ''#'' # b))"
      by (auto simp: take_Cons' )
    with h nh show ?thesis by (auto simp: hex_run3_def list_all_iff)
  qed
qed


lemma finditer_embedded_Cons:
  "finditer embedded_css_pattern (c # r) =
     (if c = CHR ''#'' \<and> hex_run3 r
      then (if hex_run3 (drop 3 r)
            then (c # take 6 r, Some (take 3 (drop 3 r))) # finditer embedded_css_pattern (drop 6 r)
            else (c # take 3 r, Some (take 3 r)) # finditer embedded_css_pattern (drop 3 r))
      else finditer embedded_css_pattern r)"
  by (auto simp: rx_match_embedded hex_run3_def Suc_diff_le)

lemma occurs_hex3_Cons:
  "occurs_hex3 (c # r) = ((c = CHR ''#'' \<and> hex_run3 r) \<or> occurs_hex3 r)"
proof
  assume "occurs_hex3 (c # r)"
  then obtain pre ds post where
    e: "c # r = pre @ CHR ''#'' # ds @ post" and l: "length ds = 3" and h: "list_all is_hex ds"
    unfolding occurs_hex3_def by blast
  show "(c = CHR ''#'' \<and> hex_run3 r) \<or> occurs_hex3 r"
  proof (cases pre)
    case Nil
    with e have "c = CHR ''#''" and "r = ds @ post" by simp_all
    with l h show ?thesis by (simp add: hex_run3_def)
  next
    case (Cons a pre')
    with e have "r = pre' @ CHR ''#'' # ds @ post" by simp
    with l h show ?thesis unfolding occurs_hex3_def by blast
  qed
next
  assume a: "(c = CHR ''#'' \<and> hex_run3 r) \<or> occurs_hex3 r"
  show "occurs_hex3 (c # r)"
  proof (cases "c = CHR ''#'' \<and> hex_run3 r")
    case True
    then have "c # r = [] @ CHR ''#'' # take 3 r @ drop 3 r" "length (take 3 r) = 3"
      "list_all is_hex (take 3 r)"
      by (simp_all add: hex_run3_def)
    then show ?thesis unfolding occurs_hex3_def by blast
  next
    case False
    with a obtain pre ds post where
      "r = pre @ CHR ''#'' # ds @ post" "length ds = 3" "list_all is_hex ds"
      unfolding occurs_hex3_def by blast
    then have "c # r = (c # pre) @ CHR ''#'' # ds @ post" by simp
    with \<open>length ds = 3\<close> \<open>list_all is_hex ds\<close> show ?thesis
      unfolding occurs_hex3_def by blast
  qed
qed

lemma finditer_embedded_Nil_iff:
  "(finditer embedded_css_pattern s = []) = (\<not> occurs_hex3 s)"
proof (induction s)
  case Nil
  show ?case by (simp add: occurs_hex3_def)
next
  case (Cons c r)
  show ?case
    unfolding finditer_embedded_Cons occurs_hex3_Cons using Cons.IH by simp
qed

lemma finditer_embedded_shape:
  "m \<in> set (finditer embedded_css_pattern s) \<Longrightarrow>
     \<exists>ds. fst m = CHR ''#'' # ds \<and> (length ds = 3 \<or> length ds = 6) \<and> list_all is_hex ds
          \<and> snd m = Some (drop (length ds - 3) ds)"
proof (induction s rule: length_induct)
  case (1 s)
  show ?case
  proof (cases s)
    case Nil
    with 1(2) show ?thesis by simp
  next
    case (Cons c r)
    have ih: "?thesis" if "m \<in> set (finditer embedded_css_pattern (drop n r))" for n
    proof -
      have "length (drop n r) < length s" using Cons by simp
      with 1(1) that show ?thesis by blast
    qed
    show ?thesis
    proof (cases "c = CHR ''#'' \<and> hex_run3 r")
      case False
      with 1(2) Cons have "m \<in> set (finditer embedded_css_pattern (drop 0 r))"
        by (simp add: finditer_embedded_Cons del: finditer.simps)
      then show ?thesis by (rule ih)
    next
      case True
      show ?thesis
      proof (cases "hex_run3 (drop 3 r)")
        case six: True
        with True 1(2) Cons consider
          "m = (c # take 6 r, Some (take 3 (drop 3 r)))"
          | "m \<in> set (finditer embedded_css_pattern (drop 6 r))"
          by (auto simp: finditer_embedded_Cons simp del: finditer.simps)
        then show ?thesis
        proof cases
          case 1
          have "list_all is_hex (take 3 r @ take 3 (drop 3 r))"
            using True six by (simp add: hex_run3_def)
          moreover have "take 3 r @ take 3 (drop 3 r) = take 6 r"
            by (metis take_add add_numeral_left numeral_plus_numeral semiring_norm(2,4,5) one_plus_numeral numeral_Bit0 numeral_Bit1 one_add_one)
          ultimately have "list_all is_hex (take 6 r)" by simp
          moreover have "length (take 6 r) = 6" using six by (auto simp: hex_run3_def)
          moreover have "drop 3 (take 6 r) = take 3 (drop 3 r)" by (simp add: drop_take)
          ultimately show ?thesis using 1 True by auto
        next
          case 2
          then show ?thesis by (rule ih)
        qed
      next
        case three: False
        with True 1(2) Cons consider
          "m = (c # take 3 r, Some (take 3 r))"
          | "m \<in> set (finditer embedded_css_pattern (drop 3 r))"
          by (auto simp: finditer_embedded_Cons simp del: finditer.simps)
        then show ?thesis
        proof cases
          case 1
          with True show ?thesis by (auto simp: hex_run3_def)
        next
          case 2
          then show ?thesis by (rule ih)
        qed
      qed
    qed
  qed
qed

lemma finditer_embedded_skip:
  "finditer embedded_css_pattern pre = [] \<Longrightarrow>
   finditer embedded_css_pattern (pre @ CHR ''#'' # rest) = finditer embedded_css_pattern (CHR ''#'' # rest)"
proof (induction pre)
  case Nil
  show ?case by simp
next
  case (Cons c pre)
  from Cons.prems have no: "\<not> (c = CHR ''#'' \<and> hex_run3 pre)"
    and e: "finditer embedded_css_pattern pre = []"
    by (auto simp: finditer_embedded_Cons simp del: finditer.simps split: if_splits)
  from no have n2: "\<not> (c = CHR ''#'' \<and> hex_run3 (pre @ CHR ''#'' # rest))"
    using hex_run3_cross by blast
  have "finditer embedded_css_pattern (c # (pre @ CHR ''#'' # rest))
      = finditer embedded_css_pattern (pre @ CHR ''#'' # rest)"
    by (subst finditer_embedded_Cons) (simp only: n2 if_False)
  with Cons.IH [OF e] show ?case by (simp del: finditer.simps)
qed

lemma finditer_embedded_run:
  assumes hex: "list_all is_hex ds" and len: "3 \<le> length ds"
    and stop: "case post of [] \<Rightarrow> True | c # _ \<Rightarrow> \<not> is_hex c"
  shows "finditer embedded_css_pattern (CHR ''#'' # ds @ post) =
     (if 6 \<le> length ds
      then (CHR ''#'' # take 6 ds, Some (take 3 (drop 3 ds)))
           # finditer embedded_css_pattern (drop 6 ds @ post)
      else (CHR ''#'' # take 3 ds, Some (take 3 ds))
           # finditer embedded_css_pattern (drop 3 ds @ post))"
proof -
  have h3: "hex_run3 (ds @ post)"
    using hex len by (simp add: hex_run3_def list_all_iff) (meson in_set_takeD)
  show ?thesis
  proof (cases "6 \<le> length ds")
    case True
    then have "hex_run3 (drop 3 (ds @ post))"
      using hex by (auto simp: hex_run3_def list_all_iff dest!: in_set_takeD in_set_dropD)
    with h3 True show ?thesis
      by (simp add: finditer_embedded_Cons del: finditer.simps)
  next
    case False
    have "\<not> hex_run3 (drop 3 (ds @ post))"
    proof
      assume a: "hex_run3 (drop 3 (ds @ post))"
      from False len obtain c r where p: "post = c # r"
        using a by (cases post) (auto simp: hex_run3_def)
      with stop have nc: "\<not> is_hex c" by simp
      have "c \<in> set (take 3 (drop 3 (ds @ post)))"
        using False len p by (auto simp: take_Cons')
      with a nc show False by (auto simp: hex_run3_def list_all_iff)
    qed
    with h3 False len show ?thesis
      by (simp add: finditer_embedded_Cons del: finditer.simps)
  qed
qed

subsection \<open>Both patterns read at least one character\<close>

lemma rx_consumes_char: "rx_consumes 1 (rx_char P)"
  by (auto simp: rx_consumes_def rx_char_def split: list.splits if_splits)

lemma rx_consumes_seq:
  "rx_consumes a p \<Longrightarrow> rx_consumes b q \<Longrightarrow> rx_consumes (a + b) (rx_seq p q)"
  unfolding rx_consumes_def rx_seq_def by fastforce

lemma rx_consumes_lit: "rx_consumes (length s) (rx_lit s)"
proof (induction s)
  case Nil
  show ?case by (simp add: rx_consumes_def)
next
  case (Cons c s)
  have "rx_lit (c # s) = rx_seq (rx_char (\<lambda>x. x = c)) (rx_lit s)" by (rule ext) simp
  moreover have "rx_consumes (1 + length s) (rx_seq (rx_char (\<lambda>x. x = c)) (rx_lit s))"
    by (rule rx_consumes_seq [OF rx_consumes_char Cons.IH])
  ultimately show ?case by simp
qed

lemma rx_consumes_group: "rx_consumes n p \<Longrightarrow> rx_consumes n (rx_group p)"
  unfolding rx_consumes_def rx_group_def by fastforce

lemma rx_consumes_opt: "rx_consumes n p \<Longrightarrow> rx_consumes 0 (rx_opt p)"
  unfolding rx_consumes_def rx_opt_def by fastforce

lemma rx_star_greedy_length:
  "m \<in> set (rx_star_greedy P st) \<Longrightarrow> length (snd m) \<le> length (snd st)"
  by (induction P st rule: rx_star_greedy.induct) (auto split: if_splits)

lemma rx_star_lazy_length:
  "m \<in> set (rx_star_lazy P st) \<Longrightarrow> length (snd m) \<le> length (snd st)"
  by (induction P st rule: rx_star_lazy.induct) (auto split: if_splits)

lemma rx_consumes_star_greedy: "rx_consumes 0 (rx_star_greedy P)"
  by (simp add: rx_consumes_def rx_star_greedy_length)

lemma rx_consumes_star_lazy: "rx_consumes 0 (rx_star_lazy P)"
  by (simp add: rx_consumes_def rx_star_lazy_length)

lemma embedded_css_pattern_consumes: "rx_consumes 4 embedded_css_pattern"
proof -
  have h: "rx_consumes (1 + (1 + 1)) (rx_group (rx_rep3 (rx_char is_hex)))"
    unfolding rx_rep3_def
    by (intro rx_consumes_group rx_consumes_seq rx_consumes_char)
  have l: "rx_consumes 1 (rx_lit ''#'')"
    using rx_consumes_lit [of "''#''"] by simp
  have "rx_consumes (1 + ((1 + (1 + 1)) + 0)) embedded_css_pattern"
    unfolding embedded_css_pattern_def rx_rep12_def
    by (intro rx_consumes_seq l h rx_consumes_opt [OF h])
  then show ?thesis by (simp add: eval_nat_numeral)
qed

lemma css_import_pattern_consumes: "rx_consumes 14 css_import_pattern"
proof -
  have l6: "rx_consumes 6 (rx_lit ''import'')"
    using rx_consumes_lit [of "''import''"] by (simp add: eval_nat_numeral)
  have l4: "rx_consumes 4 (rx_lit ''.css'')"
    using rx_consumes_lit [of "''.css''"] by (simp add: eval_nat_numeral)
  have "rx_consumes (6 + ((1 + 0) + (0 + (1 + (((1 + 0) + 4) + 1))))) css_import_pattern"
    unfolding css_import_pattern_def rx_plus_greedy_def rx_plus_lazy_def
    by (intro rx_consumes_seq rx_consumes_group rx_consumes_char rx_consumes_star_greedy
          rx_consumes_star_lazy l6 l4)
  then show ?thesis by simp
qed

lemma rx_match_consumes:
  assumes "rx_consumes (Suc n) p" and "rx_match p (c # cs) = Some m"
  shows "length (snd m) \<le> length cs"
proof -
  from assms(2) have "m \<in> set (p (None, c # cs))"
    by (auto simp: rx_match_def split: list.splits)
  with assms(1) have "length (snd m) + Suc n \<le> length (snd (None :: string option, c # cs))"
    unfolding rx_consumes_def by blast
  then show ?thesis by simp
qed

subsection \<open>The loops of the script\<close>

lemma report_exit_code:
  "snd (report show_success result) =
     (if violations result = [] \<and> embedded_violations result = [] then 0 else 1)"
  by (simp add: report_def Let_def split: prod.splits)

lemma import_step_verdict:
  "import_step e directory allowed fp st r =
     (case spec_classify e directory allowed fp r of
        FileNotFound \<Rightarrow> st\<lparr>violations := violations st @ [Violation fp r ''File not found'']\<rparr>
      | Compliant \<Rightarrow> st\<lparr>correct_imports := correct_imports st @ [CorrectImport fp r]\<rparr>
      | DisallowedPattern \<Rightarrow> st\<lparr>violations := violations st @ [Violation fp r ''Invalid import'']\<rparr>)"
  by (simp add: import_step_def spec_classify_def Let_def)

lemma foldl_import_step:
  "foldl (import_step e directory allowed fp) st refs =
     st\<lparr>violations := violations st
          @ map (\<lambda>r. Violation fp r
                   (if spec_classify e directory allowed fp r = FileNotFound
                    then ''File not found'' else ''Invalid import''))
              (filter (\<lambda>r. spec_classify e directory allowed fp r \<noteq> Compliant) refs),
        correct_imports := correct_imports st
          @ map (CorrectImport fp)
              (filter (\<lambda>r. spec_classify e directory allowed fp r = Compliant) refs)\<rparr>"
proof (induction refs arbitrary: st)
  case Nil
  show ?case by simp
next
  case (Cons r refs)
  let ?F = "import_step e directory allowed fp"
  let ?V = "\<lambda>xs. map (\<lambda>r. Violation fp r
                   (if spec_classify e directory allowed fp r = FileNotFound
                    then ''File not found'' else ''Invalid import''))
              (filter (\<lambda>r. spec_classify e directory allowed fp r \<noteq> Compliant) xs)"
  let ?C = "\<lambda>xs. map (CorrectImport fp)
              (filter (\<lambda>r. spec_classify e directory allowed fp r = Compliant) xs)"
  have "foldl ?F st (r # refs) = foldl ?F (?F st r) refs"
    by (simp only: foldl_Cons)
  also have "\<dots> = (?F st r)\<lparr>violations := violations (?F st r) @ ?V refs,
                  correct_imports := correct_imports (?F st r) @ ?C refs\<rparr>"
    by (rule Cons.IH)
  also have "\<dots> = st\<lparr>violations := violations st @ ?V (r # refs),
                  correct_imports := correct_imports st @ ?C (r # refs)\<rparr>"
    by (cases "spec_classify e directory allowed fp r") (simp_all add: import_step_verdict)
  finally show ?case .
qed

lemma file_step_analyzed:
  assumes "abspath (cwd e) (path_join root file) \<notin> set exclude_files"
    and "endswith file ''.ts'' \<or> endswith file ''.tsx''"
    and "\<not> contains root ''test''"
    and "read_file e (abspath (cwd e) (path_join root file)) = Inr content"
  shows "file_step e directory exclude_files allowed root st file =
     (let fp = abspath (cwd e) (path_join root file);
          st1 = foldl (import_step e directory allowed fp) st (re_findall css_import_pattern content)
      in if check_embedded_css content \<noteq> []
         then st1\<lparr>embedded_violations := embedded_violations st1
                @ [EmbeddedViolation fp (check_embedded_css content)]\<rparr>
         else st1)"
  using assms by (simp add: file_step_def Let_def)

lemma file_step_test_dir:
  "contains root ''test'' \<Longrightarrow> file_step e directory exclude_files allowed root st file = st"
  by (simp add: file_step_def Let_def)

lemma foldl_unchanged: "(\<And>x. x \<in> set xs \<Longrightarrow> f s x = s) \<Longrightarrow> foldl f s xs = s"
  by (induction xs) simp_all

lemma foldl_invariant:
  "P s \<Longrightarrow> (\<And>t x. P t \<Longrightarrow> P (f t x)) \<Longrightarrow> P (foldl f s xs)"
  by (induction xs arbitrary: s) simp_all

lemma file_step_unreadable:
  assumes "abspath (cwd e) (path_join root file) \<notin> set exclude_files"
    and "endswith file ''.ts'' \<or> endswith file ''.tsx''"
    and "\<not> contains root ''test''"
    and "read_file e (abspath (cwd e) (path_join root file)) = Inl ex"
  shows "file_step e directory exclude_files allowed root st file =
     st\<lparr>printed := printed st
          @ [''Error reading file '' @ abspath (cwd e) (path_join root file) @ '': '' @ str_of_exn ex]\<rparr>"
  using assms by (simp add: file_step_def Let_def)

lemma import_step_no_patterns:
  "correct_imports (import_step e directory [] fp st r) = correct_imports st"
  by (simp add: import_step_def Let_def)

lemma file_step_no_patterns:
  "correct_imports (file_step e directory exclude_files [] root st file) = correct_imports st"
proof -
  have "correct_imports (foldl (import_step e directory [] fp) st refs) = correct_imports st"
    for fp refs
    by (rule foldl_invariant [where P = "\<lambda>t. correct_imports t = correct_imports st"])
       (simp_all add: import_step_no_patterns)
  then show ?thesis
    by (simp add: file_step_def Let_def split: sum.splits)
qed

lemma dir_step_no_patterns:
  "correct_imports (dir_step e directory exclude_files exclude_directories [] st triple)
     = correct_imports st"
proof -
  have "correct_imports (foldl (file_step e directory exclude_files [] root) st files)
          = correct_imports st" for root files
    by (rule foldl_invariant [where P = "\<lambda>t. correct_imports t = correct_imports st"])
       (simp_all add: file_step_no_patterns)
  then show ?thesis
    by (simp add: dir_step_def split: prod.splits)
qed

lemma check_files_no_patterns:
  "correct_imports (check_files e directory exclude_files exclude_directories []) = []"
  unfolding check_files_def Let_def
  by (rule foldl_invariant [where P = "\<lambda>t. correct_imports t = []"])
     (simp_all add: dir_step_no_patterns)

lemma os_walk_not_traversable: "\<not> traversable e directory \<Longrightarrow> os_walk e directory = []"
  by (auto simp: traversable_def os_walk_def split: option.splits node.splits)

lemma check_files_not_traversable:
  "\<not> traversable e directory \<Longrightarrow>
   check_files e directory exclude_files exclude_directories allowed = no_findings"
  by (simp add: check_files_def os_walk_not_traversable no_findings_def)

lemma report_empty: "report show_success no_findings = ([], 0)"
  by (simp add: report_def no_findings_def)

lemma main_not_traversable:
  "\<not> traversable e (directory_flag a) \<Longrightarrow> main e a = ([], 0)"
  by (simp add: main_def check_files_not_traversable report_empty) (simp add: no_findings_def)

lemma foldl_filter_skip:
  "(\<And>t x. \<not> P x \<Longrightarrow> f t x = t) \<Longrightarrow> foldl f s (filter P xs) = foldl f s xs"
  by (induction xs arbitrary: s) simp_all

lemma dir_step_test_dir:
  "contains root ''test'' \<Longrightarrow>
   dir_step e directory exclude_files exclude_directories allowed st (root, dirs, files) = st"
  by (simp add: dir_step_def foldl_unchanged file_step_test_dir)

lemma main_exit_code:
  "snd (main e a) =
     (let result = check_files e (directory_flag a)
                     (flag_default [] (exclude_files_flag a))
                     (flag_default [] (exclude_directories_flag a))
                     (flag_default [''app.module.css''] (allowed_css_patterns_flag a))
      in if violations result = [] \<and> embedded_violations result = [] then 0 else 1)"
  by (simp add: main_def Let_def split_beta report_exit_code)

subsection \<open>The scan only appends, and its findings do not depend on the printed text\<close>

lemma grows_refl: "grows st st"
  by (simp add: grows_def)

lemma grows_trans: "grows a b \<Longrightarrow> grows b c \<Longrightarrow> grows a c"
  unfolding grows_def by (meson prefix_order.trans)

lemma foldl_grows:
  "(\<And>t x. grows t (f t x)) \<Longrightarrow> grows s (foldl f s xs)"
proof (induction xs arbitrary: s)
  case Nil
  show ?case by (simp add: grows_refl)
next
  case (Cons x xs)
  have "grows s (f s x)" by (rule Cons.prems)
  moreover have "grows (f s x) (foldl f (f s x) xs)" by (rule Cons.IH) (rule Cons.prems)
  ultimately have "grows s (foldl f (f s x) xs)" by (rule grows_trans)
  then show ?case by simp
qed

lemma import_step_grows: "grows st (import_step e directory allowed fp st r)"
  by (cases "spec_classify e directory allowed fp r")
     (simp_all add: import_step_verdict grows_def)

lemma file_step_cases:
  obtains
    (skipped) "\<And>st. file_step e directory exclude_files allowed root st file = st"
  | (unreadable) ex where
      "\<And>st. file_step e directory exclude_files allowed root st file =
         st\<lparr>printed := printed st
              @ [''Error reading file '' @ abspath (cwd e) (path_join root file) @ '': ''
                 @ str_of_exn ex]\<rparr>"
  | (analyzed) content where
      "\<And>st. file_step e directory exclude_files allowed root st file =
         (let fp = abspath (cwd e) (path_join root file);
              st1 = foldl (import_step e directory allowed fp) st
                      (re_findall css_import_pattern content)
          in if check_embedded_css content \<noteq> []
             then st1\<lparr>embedded_violations := embedded_violations st1
                    @ [EmbeddedViolation fp (check_embedded_css content)]\<rparr>
             else st1)"
proof (cases "abspath (cwd e) (path_join root file) \<notin> set exclude_files
    \<and> (endswith file ''.ts'' \<or> endswith file ''.tsx'') \<and> \<not> contains root ''test''")
  case False
  then have "file_step e directory exclude_files allowed root st file = st" for st
    by (auto simp: file_step_def Let_def)
  then show ?thesis by (rule skipped)
next
  case True
  show ?thesis
  proof (cases "read_file e (abspath (cwd e) (path_join root file))")
    case (Inl ex)
    with True show ?thesis
      by (intro unreadable [of ex] file_step_unreadable) simp_all
  next
    case (Inr content)
    with True show ?thesis
      by (intro analyzed [of content] file_step_analyzed) simp_all
  qed
qed

lemma file_step_grows: "grows st (file_step e directory exclude_files allowed root st file)"
proof (cases rule: file_step_cases [of e directory exclude_files allowed root "file"])
  case skipped
  then show ?thesis by (simp add: grows_refl)
next
  case (unreadable ex)
  then show ?thesis by (simp add: grows_def)
next
  case (analyzed content)
  let ?fp = "abspath (cwd e) (path_join root file)"
  let ?st1 = "foldl (import_step e directory allowed ?fp) st
                (re_findall css_import_pattern content)"
  have g: "grows st ?st1"
    by (rule foldl_grows) (rule import_step_grows)
  then have "grows st (?st1\<lparr>embedded_violations := embedded_violations ?st1 @ [v]\<rparr>)" for v
    by (simp add: grows_def)
  with g show ?thesis
    unfolding analyzed Let_def by (simp only: if_split) blast
qed

lemma dir_step_grows:
  "grows st (dir_step e directory exclude_files exclude_directories allowed st triple)"
proof -
  have "grows st (foldl (file_step e directory exclude_files allowed root) st files)"
    for root files
    by (rule foldl_grows) (rule file_step_grows)
  then show ?thesis
    by (auto simp: dir_step_def grows_refl split: prod.splits)
qed

lemma foldl_related:
  "(\<And>s t x. R s t \<Longrightarrow> R (f s x) (f t x)) \<Longrightarrow> R s t \<Longrightarrow> R (foldl f s xs) (foldl f t xs)"
  by (induction xs arbitrary: s t) simp_all

lemma import_step_findings:
  "findings s = findings t \<Longrightarrow>
   findings (import_step e directory allowed fp s r) = findings (import_step e directory allowed fp t r)"
  by (cases "spec_classify e directory allowed fp r")
     (simp_all add: import_step_verdict findings_def)

lemma file_step_findings:
  assumes "findings s = findings t"
  shows "findings (file_step e directory exclude_files allowed root s file)
       = findings (file_step e directory exclude_files allowed root t file)"
proof (cases rule: file_step_cases [of e directory exclude_files allowed root "file"])
  case skipped
  with assms show ?thesis by simp
next
  case (unreadable ex)
  with assms show ?thesis by (simp add: findings_def)
next
  case (analyzed content)
  let ?fp = "abspath (cwd e) (path_join root file)"
  let ?refs = "re_findall css_import_pattern content"
  let ?s1 = "foldl (import_step e directory allowed ?fp) s ?refs"
  let ?t1 = "foldl (import_step e directory allowed ?fp) t ?refs"
  have g: "findings ?s1 = findings ?t1"
    by (rule foldl_related [where R = "\<lambda>a b. findings a = findings b"])
       (rule import_step_findings, assumption, rule assms)
  then have h: "findings (?s1\<lparr>embedded_violations := embedded_violations ?s1 @ [v]\<rparr>)
      = findings (?t1\<lparr>embedded_violations := embedded_violations ?t1 @ [v]\<rparr>)" for v
    by (simp add: findings_def)
  show ?thesis
  proof (cases "check_embedded_css content = []")
    case True
    with g show ?thesis unfolding analyzed Let_def by simp
  next
    case False
    with h show ?thesis unfolding analyzed Let_def by simp
  qed
qed

lemma dir_step_findings:
  assumes "findings s = findings t"
  shows "findings (dir_step e directory exclude_files exclude_directories allowed s triple)
       = findings (dir_step e directory exclude_files exclude_directories allowed t triple)"
proof -
  have "findings (foldl (file_step e directory exclude_files allowed root) s files)
      = findings (foldl (file_step e directory exclude_files allowed root) t files)"
    for root files
    by (rule foldl_related [where R = "\<lambda>a b. findings a = findings b"])
       (rule file_step_findings, assumption, rule assms)
  then show ?thesis
    using assms by (auto simp: dir_step_def split: prod.splits)
qed

lemma check_files_walk_split:
  assumes "os_walk e directory = pre @ (root, dirs, before @ file # rest) # post"
    and "\<not> (\<exists>exclude_dir \<in> set (map (abspath (cwd e)) exclude_directories).
             startswith root exclude_dir)"
  shows "check_files e directory exclude_files exclude_directories allowed =
     foldl (dir_step e directory (map (abspath (cwd e)) exclude_files)
              (map (abspath (cwd e)) exclude_directories) allowed)
       (foldl (file_step e directory (map (abspath (cwd e)) exclude_files) allowed root)
          (file_step e directory (map (abspath (cwd e)) exclude_files) allowed root
             (foldl (file_step e directory (map (abspath (cwd e)) exclude_files) allowed root)
                (foldl (dir_step e directory (map (abspath (cwd e)) exclude_files)
                          (map (abspath (cwd e)) exclude_directories) allowed)
                   no_findings pre)
                before)
             file)
          rest)
       post"
proof -
  have d: "dir_step e directory (map (abspath (cwd e)) exclude_files)
        (map (abspath (cwd e)) exclude_directories) allowed s (root, dirs, files)
      = foldl (file_step e directory (map (abspath (cwd e)) exclude_files) allowed root) s files"
    for s files
    using assms(2) by (simp add: dir_step_def)
  have "check_files e directory exclude_files exclude_directories allowed =
      foldl (dir_step e directory (map (abspath (cwd e)) exclude_files)
               (map (abspath (cwd e)) exclude_directories) allowed)
        no_findings (os_walk e directory)"
    by (simp add: check_files_def no_findings_def)
  then show ?thesis
    by (simp only: assms(1) foldl_append foldl_Cons d)
qed

lemma scan_rest_grows:
  "grows s (foldl (dir_step e directory exclude_files exclude_directories allowed)
              (foldl (file_step e directory exclude_files allowed root) s rest) post)"
proof -
  have "grows s (foldl (file_step e directory exclude_files allowed root) s rest)"
    by (rule foldl_grows) (rule file_step_grows)
  moreover have "grows (foldl (file_step e directory exclude_files allowed root) s rest)
      (foldl (dir_step e directory exclude_files exclude_directories allowed)
         (foldl (file_step e directory exclude_files allowed root) s rest) post)"
    by (rule foldl_grows) (rule dir_step_grows)
  ultimately show ?thesis by (rule grows_trans)
qed

lemma scan_rest_findings:
  assumes "findings s = findings t"
  shows "findings (foldl (dir_step e directory exclude_files exclude_directories allowed)
              (foldl (file_step e directory exclude_files allowed root) s rest) post)
       = findings (foldl (dir_step e directory exclude_files exclude_directories allowed)
              (foldl (file_step e directory exclude_files allowed root) t rest) post)"
proof -
  have "findings (foldl (file_step e directory exclude_files allowed root) s rest)
      = findings (foldl (file_step e directory exclude_files allowed root) t rest)"
    by (rule foldl_related [where R = "\<lambda>a b. findings a = findings b"])
       (rule file_step_findings, assumption, rule assms)
  then show ?thesis
    by (rule foldl_related [where R = "\<lambda>a b. findings a = findings b", rotated])
       (rule dir_step_findings)
qed

lemma grows_printed: "grows s t \<Longrightarrow> x \<in> set (printed s) \<Longrightarrow> x \<in> set (printed t)"
  unfolding grows_def using set_mono_prefix by blast

lemma grows_violations: "grows s t \<Longrightarrow> x \<in> set (violations s) \<Longrightarrow> x \<in> set (violations t)"
  unfolding grows_def using set_mono_prefix by blast

lemma grows_correct_imports:
  "grows s t \<Longrightarrow> x \<in> set (correct_imports s) \<Longrightarrow> x \<in> set (correct_imports t)"
  unfolding grows_def using set_mono_prefix by blast

lemma grows_embedded_violations:
  "grows s t \<Longrightarrow> x \<in> set (embedded_violations s) \<Longrightarrow> x \<in> set (embedded_violations t)"
  unfolding grows_def using set_mono_prefix by blast

section \<open>The claims\<close>



text \<open>
  C2. A file contributes one \<^verbatim>\<open>EmbeddedViolation\<close> exactly when its text has a colour
  literal, and the entry is meant to list the matched tokens; a file holding
  \<^verbatim>\<open>color: #1A2b3C;\<close> should list \<^verbatim>\<open>1A2b3C\<close>. The script records group 1 of the pattern,
  and a group that is repeated keeps its last repetition only: the entry lists \<^verbatim>\<open>b3C\<close>.
\<close>

theorem embedded_token_truncated:
  "check_embedded_css ''color: #1A2b3C;'' = [''b3C'']
   \<and> embedded_violations
       (check_files example_env ''/w/src/gen'' [''/w/src/gen/d.ts''] [] [''app.module.css''])
     = [EmbeddedViolation ''/w/src/gen/b.ts'' [''b3C'']]"
  by code_simp

text \<open>
  C3. The exit code is 0 exactly when the list of import violations and the list of
  embedded violations are both empty, and 1 otherwise. It is computed from these two
  lists alone: the compliant imports and \<^verbatim>\<open>--show_success\<close> have no part in it.
\<close>

theorem exit_code_iff_no_violations:
  "snd (report show_success result) =
     (if violations result = [] \<and> embedded_violations result = [] then 0 else 1)
   \<and> snd (main e a) =
     (let result = check_files e (directory_flag a)
                     (flag_default [] (exclude_files_flag a))
                     (flag_default [] (exclude_directories_flag a))
                     (flag_default [''app.module.css''] (allowed_css_patterns_flag a))
      in if violations result = [] \<and> embedded_violations result = [] then 0 else 1)"
  by (rule conjI [OF report_exit_code main_exit_code])

theorem exit_code_iff_no_violations_witness:
  "correct_imports (check_files example_env ''/w/ok'' [] [] [''app.module.css''])
     = [CorrectImport ''/w/ok/Ok.tsx'' ''./app.module.css'']
   \<and> show_success_flag (example_argv ''/w/ok'')
   \<and> snd (main example_env (example_argv ''/w/ok'')) = 0"
proof -
  have r: "check_files example_env ''/w/ok'' [] [] [''app.module.css''] =
      \<lparr>violations = [], correct_imports = [CorrectImport ''/w/ok/Ok.tsx'' ''./app.module.css''],
       embedded_violations = [], printed = []\<rparr>"
    by code_simp
  from exit_code_iff_no_violations [of _ _ example_env "example_argv ''/w/ok''", THEN conjunct2]
  have "snd (main example_env (example_argv ''/w/ok'')) = 0"
    by (simp add: example_argv_def r)
  then show ?thesis by (simp add: r example_argv_def)
qed

text \<open>
  C4. The excluded directories are made absolute before they are compared, and the claim
  is that every directory whose absolute path begins with such an entry is skipped with
  its subtree, in whatever form the root directory was given. The script compares the
  entry with the path as \<^verbatim>\<open>os.walk\<close> yields it, which starts with the root directory as it
  was given: with the relative root \<^verbatim>\<open>src\<close> the excluded directory \<^verbatim>\<open>src/gen\<close> is scanned,
  with the absolute root \<^verbatim>\<open>/w/src\<close> it is skipped.
\<close>

theorem relative_root_exclusion:
  "abspath (cwd example_env) ''src/gen'' = ''/w/src/gen''
   \<and> embedded_violations (check_files example_env ''src'' [] [''src/gen''] [''a.css''])
     = [EmbeddedViolation ''/w/src/App.test.tsx'' [''fff''],
        EmbeddedViolation ''/w/src/gen/b.ts'' [''b3C''],
        EmbeddedViolation ''/w/src/gen/d.ts'' [''abc'']]
   \<and> embedded_violations (check_files example_env ''/w/src'' [] [''src/gen''] [''a.css''])
     = [EmbeddedViolation ''/w/src/App.test.tsx'' [''fff'']]"
  by code_simp

text \<open>
  C5, as amended. When the root directory cannot be traversed (it is missing, is not a
  directory or cannot be listed), \<^verbatim>\<open>os.walk\<close> yields nothing and raises nothing: the scan
  returns three empty lists, nothing is printed and the exit code is 0.
\<close>

theorem untraversable_root_is_silent:
  "\<not> traversable e (directory_flag a) \<Longrightarrow>
   check_files e (directory_flag a) exclude_files exclude_directories allowed = no_findings
   \<and> main e a = ([], 0)"
  by (simp add: check_files_not_traversable main_not_traversable)

theorem untraversable_root_is_silent_witness:
  "\<not> traversable example_env ''/w/locked''
   \<and> check_files example_env ''/w/locked'' [] [] [''app.module.css''] = no_findings
   \<and> main example_env (example_argv ''/w/locked'') = ([], 0)"
proof -
  have h: "\<not> traversable example_env (directory_flag (example_argv ''/w/locked''))"
    by code_simp
  from untraversable_root_is_silent [OF h, of "[]" "[]" "[''app.module.css'']"] h
  show ?thesis by (simp add: example_argv_def)
qed

text \<open>
  The claim C5 as it was stated fails: for a root directory that does not exist the
  script runs to its end with empty results and the exit code 0.
\<close>

theorem untraversable_root_counterexample:
  "lookup example_env ''missing'' = None
   \<and> main example_env (example_argv ''missing'') = ([], 0)"
  by code_simp

text \<open>
  C6, as amended. Every match of the colour pattern is a \<^verbatim>\<open>#\<close> followed by exactly three or
  exactly six hexadecimal digits of either case, and what the script records for it is
  its last three digits. The text has a match exactly when some \<^verbatim>\<open>#\<close> in it is followed
  by at least three hexadecimal digits. The matches are found from left to right and do
  not overlap: behind a piece without a match, a \<^verbatim>\<open>#\<close> followed by a run of \<open>n \<ge> 3\<close>
  hexadecimal digits is matched on its first six digits when \<open>n \<ge> 6\<close> and on its first
  three digits otherwise, and the search goes on right behind the match. The pattern does
  not look at the character behind a match, so a \<^verbatim>\<open>#\<close> followed by four or five digits is
  matched on its first three; only fewer than three digits give no match.
\<close>

theorem embedded_css_matches:
  "(\<forall>m \<in> set (finditer embedded_css_pattern s).
      \<exists>ds. fst m = CHR ''#'' # ds \<and> (length ds = 3 \<or> length ds = 6) \<and> list_all is_hex ds
           \<and> snd m = Some (drop (length ds - 3) ds))
   \<and> ((check_embedded_css s = []) =
        (\<not> (\<exists>pre ds post. s = pre @ CHR ''#'' # ds @ post \<and> length ds = 3
               \<and> list_all is_hex ds)))
   \<and> (list_all is_hex ds \<and> 3 \<le> length ds \<and> (case post of [] \<Rightarrow> True | c # _ \<Rightarrow> \<not> is_hex c)
        \<and> check_embedded_css pre = [] \<longrightarrow>
      finditer embedded_css_pattern (pre @ CHR ''#'' # ds @ post) =
        (if 6 \<le> length ds
         then (CHR ''#'' # take 6 ds, Some (take 3 (drop 3 ds)))
              # finditer embedded_css_pattern (drop 6 ds @ post)
         else (CHR ''#'' # take 3 ds, Some (take 3 ds))
              # finditer embedded_css_pattern (drop 3 ds @ post)))"
proof (intro conjI ballI impI)
  fix m
  assume "m \<in> set (finditer embedded_css_pattern s)"
  then show "\<exists>ds. fst m = CHR ''#'' # ds \<and> (length ds = 3 \<or> length ds = 6) \<and> list_all is_hex ds
           \<and> snd m = Some (drop (length ds - 3) ds)"
    by (rule finditer_embedded_shape)
next
  have "(check_embedded_css s = []) = (finditer embedded_css_pattern s = [])"
    by (simp add: check_embedded_css_def re_findall_def)
  then show "(check_embedded_css s = []) =
        (\<not> (\<exists>pre ds post. s = pre @ CHR ''#'' # ds @ post \<and> length ds = 3
               \<and> list_all is_hex ds))"
    by (simp only: finditer_embedded_Nil_iff occurs_hex3_def)
next
  assume a: "list_all is_hex ds \<and> 3 \<le> length ds
      \<and> (case post of [] \<Rightarrow> True | c # _ \<Rightarrow> \<not> is_hex c) \<and> check_embedded_css pre = []"
  then have "finditer embedded_css_pattern pre = []"
    by (simp add: check_embedded_css_def re_findall_def)
  then have "finditer embedded_css_pattern (pre @ CHR ''#'' # ds @ post)
      = finditer embedded_css_pattern (CHR ''#'' # ds @ post)"
    by (rule finditer_embedded_skip)
  also have "\<dots> = (if 6 \<le> length ds
         then (CHR ''#'' # take 6 ds, Some (take 3 (drop 3 ds)))
              # finditer embedded_css_pattern (drop 6 ds @ post)
         else (CHR ''#'' # take 3 ds, Some (take 3 ds))
              # finditer embedded_css_pattern (drop 3 ds @ post))"
    using a by (intro finditer_embedded_run) simp_all
  finally show "finditer embedded_css_pattern (pre @ CHR ''#'' # ds @ post) =
        (if 6 \<le> length ds
         then (CHR ''#'' # take 6 ds, Some (take 3 (drop 3 ds)))
              # finditer embedded_css_pattern (drop 6 ds @ post)
         else (CHR ''#'' # take 3 ds, Some (take 3 ds))
              # finditer embedded_css_pattern (drop 3 ds @ post))" .
qed

theorem embedded_css_matches_witness:
  "list_all is_hex ''1234'' \<and> check_embedded_css ''a'' = []
   \<and> finditer embedded_css_pattern ''a#1234;'' = [(''#123'', Some ''123'')]"
proof -
  have h: "list_all is_hex ''1234'' \<and> 3 \<le> length ''1234''
      \<and> (case '';'' of [] \<Rightarrow> True | c # _ \<Rightarrow> \<not> is_hex c) \<and> check_embedded_css ''a'' = []"
    by code_simp
  have r: "finditer embedded_css_pattern ''4;'' = []"
    by code_simp
  from embedded_css_matches [where ds = "''1234''" and post = "'';''" and pre = "''a''",
      THEN conjunct2, THEN conjunct2, rule_format, OF h]
  have "finditer embedded_css_pattern ''a#1234;'' = [(''#123'', Some ''123'')]"
    by (simp add: r del: finditer.simps)
  with h show ?thesis by simp
qed

text \<open>
  The claim C6 as it was stated fails in its last part: a \<^verbatim>\<open>#\<close> followed by four or by
  five hexadecimal digits does give a match.
\<close>

theorem embedded_css_four_digits_counterexample:
  "check_embedded_css ''#1234'' = [''123''] \<and> check_embedded_css ''#12345'' = [''123'']"
  by code_simp

text \<open>
  C7. A file in a directory whose path, as the traversal yields it, contains \<^verbatim>\<open>test\<close>
  anywhere is never analyzed: whatever its name and its content, the loop body leaves the
  three lists and the printed text as they were, and so does a whole round of the loop
  over the directories. The result of the scan is the one of the traversal with these
  directories left out.
\<close>

theorem test_directory_skipped:
  "(contains root ''test'' \<longrightarrow>
      file_step e directory exclude_files allowed root st file = st
      \<and> dir_step e directory exclude_files exclude_directories allowed st (root, dirs, files)
          = st)
   \<and> check_files e directory exclude_files exclude_directories allowed =
       foldl (dir_step e directory (map (abspath (cwd e)) exclude_files)
                (map (abspath (cwd e)) exclude_directories) allowed)
         no_findings
         (filter (\<lambda>t. \<not> contains (fst t) ''test'') (os_walk e directory))"
proof (intro conjI impI)
  assume "contains root ''test''"
  then show "file_step e directory exclude_files allowed root st file = st"
    by (rule file_step_test_dir)
next
  assume "contains root ''test''"
  then show "dir_step e directory exclude_files exclude_directories allowed st
      (root, dirs, files) = st"
    by (rule dir_step_test_dir)
next
  have "foldl (dir_step e directory (map (abspath (cwd e)) exclude_files)
                (map (abspath (cwd e)) exclude_directories) allowed)
         no_findings
         (filter (\<lambda>t. \<not> contains (fst t) ''test'') (os_walk e directory))
      = foldl (dir_step e directory (map (abspath (cwd e)) exclude_files)
                (map (abspath (cwd e)) exclude_directories) allowed)
         no_findings (os_walk e directory)"
  proof (rule foldl_filter_skip)
    fix t :: scan_state and x :: "string \<times> string list \<times> string list"
    assume "\<not> \<not> contains (fst x) ''test''"
    then show "dir_step e directory (map (abspath (cwd e)) exclude_files)
        (map (abspath (cwd e)) exclude_directories) allowed t x = t"
      by (cases x) (simp add: dir_step_test_dir)
  qed
  then show "check_files e directory exclude_files exclude_directories allowed =
       foldl (dir_step e directory (map (abspath (cwd e)) exclude_files)
                (map (abspath (cwd e)) exclude_directories) allowed)
         no_findings
         (filter (\<lambda>t. \<not> contains (fst t) ''test'') (os_walk e directory))"
    by (simp add: check_files_def no_findings_def)
qed

theorem test_directory_skipped_witness:
  "contains ''/w/src/test'' ''test''
   \<and> read_file example_env ''/w/src/test/Widget.tsx'' = Inr ''#abc''
   \<and> file_step example_env ''/w/src'' [] [''a.css''] ''/w/src/test'' no_findings ''Widget.tsx''
       = no_findings"
proof -
  have h: "contains ''/w/src/test'' ''test''" by code_simp
  have r: "read_file example_env ''/w/src/test/Widget.tsx'' = Inr ''#abc''" by code_simp
  from test_directory_skipped [THEN conjunct1, rule_format, OF h, THEN conjunct1] h r
  show ?thesis by simp
qed

text \<open>
  C8. When a selected file cannot be read (the read raises \<^verbatim>\<open>IOError\<close> or
  \<^verbatim>\<open>UnicodeDecodeError\<close>), the scan prints one diagnostic line for it, adds nothing to
  any of the three result sequences, and goes on. Let the traversal of the root directory
  yield a directory that is not excluded and whose path does not contain \<^verbatim>\<open>test\<close>, and let
  \<open>file\<close> be one of its files, a \<^verbatim>\<open>.ts\<close> or \<^verbatim>\<open>.tsx\<close> file that is not excluded and whose read
  fails. Then the result of \<^verbatim>\<open>check_files\<close> is the one reached by scanning everything before
  the file, appending the line \<^verbatim>\<open>Error reading file <path>: <error>\<close> to the printed text and
  scanning the files and directories after it; the line is among the printed texts of
  the result; and the three result sequences are those of the same scan with the file
  left out.
\<close>

theorem unreadable_file_skipped:
  assumes "os_walk e directory = pre @ (root, dirs, before @ file # rest) # post"
    and "\<not> (\<exists>exclude_dir \<in> set (map (abspath (cwd e)) exclude_directories).
             startswith root exclude_dir)"
    and "abspath (cwd e) (path_join root file) \<notin> set (map (abspath (cwd e)) exclude_files)"
    and "endswith file ''.ts'' \<or> endswith file ''.tsx''"
    and "\<not> contains root ''test''"
    and "read_file e (abspath (cwd e) (path_join root file)) = Inl ex"
  shows
    "let D = dir_step e directory (map (abspath (cwd e)) exclude_files)
               (map (abspath (cwd e)) exclude_directories) allowed;
         F = file_step e directory (map (abspath (cwd e)) exclude_files) allowed root;
         line = ''Error reading file '' @ abspath (cwd e) (path_join root file) @ '': ''
                  @ str_of_exn ex;
         st = foldl F (foldl D no_findings pre) before;
         result = check_files e directory exclude_files exclude_directories allowed
     in result = foldl D (foldl F (st\<lparr>printed := printed st @ [line]\<rparr>) rest) post
        \<and> line \<in> set (printed result)
        \<and> findings result = findings (foldl D (foldl F st rest) post)"
proof -
  let ?D = "dir_step e directory (map (abspath (cwd e)) exclude_files)
               (map (abspath (cwd e)) exclude_directories) allowed"
  let ?F = "file_step e directory (map (abspath (cwd e)) exclude_files) allowed root"
  let ?line = "''Error reading file '' @ abspath (cwd e) (path_join root file) @ '': ''
                  @ str_of_exn ex"
  let ?st = "foldl ?F (foldl ?D no_findings pre) before"
  let ?st' = "?st\<lparr>printed := printed ?st @ [?line]\<rparr>"
  let ?result = "check_files e directory exclude_files exclude_directories allowed"
  have step: "?F ?st file = ?st'"
    by (rule file_step_unreadable [OF assms(3-6)])
  have eq: "?result = foldl ?D (foldl ?F ?st' rest) post"
    using check_files_walk_split [OF assms(1,2), of exclude_files allowed]
    by (simp only: step)
  have "grows ?st' (foldl ?D (foldl ?F ?st' rest) post)"
    by (rule scan_rest_grows)
  moreover have "?line \<in> set (printed ?st')" by simp
  ultimately have mem: "?line \<in> set (printed ?result)"
    unfolding eq by (rule grows_printed)
  have "findings ?st' = findings ?st" by (simp add: findings_def)
  then have "findings (foldl ?D (foldl ?F ?st' rest) post)
      = findings (foldl ?D (foldl ?F ?st rest) post)"
    by (rule scan_rest_findings)
  then have fin: "findings ?result = findings (foldl ?D (foldl ?F ?st rest) post)"
    by (simp only: eq)
  from eq mem fin show ?thesis
    unfolding Let_def by (intro conjI)
qed

theorem unreadable_file_skipped_witness:
  "os_walk example_env ''/w/src/gen''
     = [] @ (''/w/src/gen'', [], [''b.ts''] @ ''c.ts'' # [''d.ts'']) # []
   \<and> read_file example_env ''/w/src/gen/c.ts''
     = Inl (IOError (''[Errno 13] Permission denied: '/w/src/gen/c.ts'' @ [CHR 0x27]))
   \<and> (''Error reading file /w/src/gen/c.ts: [Errno 13] Permission denied: '/w/src/gen/c.ts''
        @ [CHR 0x27])
       \<in> set (printed (check_files example_env ''/w/src/gen'' [] [] [''a.css'']))
   \<and> check_files example_env ''/w/src/gen'' [] [] [''a.css''] =
       \<lparr>violations = [], correct_imports = [],
        embedded_violations =
          [EmbeddedViolation ''/w/src/gen/b.ts'' [''b3C''],
           EmbeddedViolation ''/w/src/gen/d.ts'' [''abc'']],
        printed =
          [''Error reading file /w/src/gen/c.ts: [Errno 13] Permission denied: '/w/src/gen/c.ts''
           @ [CHR 0x27]]\<rparr>"
proof -
  have p: "abspath (cwd example_env) (path_join ''/w/src/gen'' ''c.ts'') = ''/w/src/gen/c.ts''"
    by code_simp
  have h1: "os_walk example_env ''/w/src/gen''
     = [] @ (''/w/src/gen'', [], [''b.ts''] @ ''c.ts'' # [''d.ts'']) # []"
    by code_simp
  have h2: "\<not> (\<exists>exclude_dir \<in> set (map (abspath (cwd example_env)) []).
             startswith ''/w/src/gen'' exclude_dir)"
    by simp
  have h3: "abspath (cwd example_env) (path_join ''/w/src/gen'' ''c.ts'')
      \<notin> set (map (abspath (cwd example_env)) [])"
    by simp
  have h4: "endswith ''c.ts'' ''.ts'' \<or> endswith ''c.ts'' ''.tsx''" by code_simp
  have h5: "\<not> contains ''/w/src/gen'' ''test''" by code_simp
  have h6: "read_file example_env (abspath (cwd example_env) (path_join ''/w/src/gen'' ''c.ts''))
      = Inl (IOError (''[Errno 13] Permission denied: '/w/src/gen/c.ts'' @ [CHR 0x27]))"
    by code_simp
  have r: "check_files example_env ''/w/src/gen'' [] [] [''a.css''] =
       \<lparr>violations = [], correct_imports = [],
        embedded_violations =
          [EmbeddedViolation ''/w/src/gen/b.ts'' [''b3C''],
           EmbeddedViolation ''/w/src/gen/d.ts'' [''abc'']],
        printed =
          [''Error reading file /w/src/gen/c.ts: [Errno 13] Permission denied: '/w/src/gen/c.ts''
           @ [CHR 0x27]]\<rparr>"
    by code_simp
  from unreadable_file_skipped [where allowed = "[''a.css'']", OF h1 h2 h3 h4 h5 h6,
      unfolded Let_def, THEN conjunct2, THEN conjunct1]
  have "(''Error reading file /w/src/gen/c.ts: [Errno 13] Permission denied: '/w/src/gen/c.ts''
        @ [CHR 0x27])
       \<in> set (printed (check_files example_env ''/w/src/gen'' [] [] [''a.css'']))"
    by (simp add: p)
  with h1 h6 r show ?thesis by (simp only: p simp_thms)
qed

text \<open>
  C9. The test for \<^verbatim>\<open>test\<close> looks at the directory path only. Let the traversal of the root
  directory yield a directory that is not excluded and whose path does not contain
  \<^verbatim>\<open>test\<close>, and let \<open>file\<close> be one of its files, a readable \<^verbatim>\<open>.ts\<close> or \<^verbatim>\<open>.tsx\<close> file that is not
  excluded and whose own name contains \<^verbatim>\<open>test\<close>. Then the scan analyzes it as every other
  source file: the result of \<^verbatim>\<open>check_files\<close> is the one reached by scanning everything
  before the file, classifying its stylesheet references, recording its colour literals
  and scanning the rest; every reference of the file has its entry in the result (a
  violation or a compliant import, by its classification), and when the file has colour
  literals its embedded violation is in the result. So the file can add entries to all
  three result sequences.
\<close>

theorem test_in_file_name_analyzed:
  assumes "os_walk e directory = pre @ (root, dirs, before @ file # rest) # post"
    and "\<not> (\<exists>exclude_dir \<in> set (map (abspath (cwd e)) exclude_directories).
             startswith root exclude_dir)"
    and "contains file ''test''"
    and "\<not> contains root ''test''"
    and "endswith file ''.ts'' \<or> endswith file ''.tsx''"
    and "abspath (cwd e) (path_join root file) \<notin> set (map (abspath (cwd e)) exclude_files)"
    and "read_file e (abspath (cwd e) (path_join root file)) = Inr content"
  shows
    "let D = dir_step e directory (map (abspath (cwd e)) exclude_files)
               (map (abspath (cwd e)) exclude_directories) allowed;
         F = file_step e directory (map (abspath (cwd e)) exclude_files) allowed root;
         fp = abspath (cwd e) (path_join root file);
         refs = re_findall css_import_pattern content;
         codes = check_embedded_css content;
         st = foldl F (foldl D no_findings pre) before;
         st1 = foldl (import_step e directory allowed fp) st refs;
         st2 = (if codes \<noteq> []
                then st1\<lparr>embedded_violations := embedded_violations st1
                       @ [EmbeddedViolation fp codes]\<rparr>
                else st1);
         result = check_files e directory exclude_files exclude_directories allowed
     in result = foldl D (foldl F st2 rest) post
        \<and> (\<forall>r \<in> set refs.
              case spec_classify e directory allowed fp r of
                FileNotFound \<Rightarrow> Violation fp r ''File not found'' \<in> set (violations result)
              | Compliant \<Rightarrow> CorrectImport fp r \<in> set (correct_imports result)
              | DisallowedPattern \<Rightarrow>
                  Violation fp r ''Invalid import'' \<in> set (violations result))
        \<and> (codes \<noteq> [] \<longrightarrow> EmbeddedViolation fp codes \<in> set (embedded_violations result))"
proof -
  let ?D = "dir_step e directory (map (abspath (cwd e)) exclude_files)
               (map (abspath (cwd e)) exclude_directories) allowed"
  let ?F = "file_step e directory (map (abspath (cwd e)) exclude_files) allowed root"
  let ?fp = "abspath (cwd e) (path_join root file)"
  let ?refs = "re_findall css_import_pattern content"
  let ?codes = "check_embedded_css content"
  let ?st = "foldl ?F (foldl ?D no_findings pre) before"
  let ?st1 = "foldl (import_step e directory allowed ?fp) ?st ?refs"
  let ?st2 = "if ?codes \<noteq> []
                then ?st1\<lparr>embedded_violations := embedded_violations ?st1
                       @ [EmbeddedViolation ?fp ?codes]\<rparr>
                else ?st1"
  let ?result = "check_files e directory exclude_files exclude_directories allowed"
  have step: "?F ?st file = ?st2"
    using file_step_analyzed [OF assms(6,5,4,7), of directory allowed ?st]
    by (simp only: Let_def)
  have eq: "?result = foldl ?D (foldl ?F ?st2 rest) post"
    using check_files_walk_split [OF assms(1,2), of exclude_files allowed]
    by (simp only: step)
  have g2: "grows ?st2 ?result"
    unfolding eq by (rule scan_rest_grows)
  have g12: "grows ?st1 ?st2"
    by (simp add: grows_def)
  have g1: "grows ?st1 ?result"
    by (rule grows_trans [OF g12 g2])
  have v1: "violations ?st1 = violations ?st
          @ map (\<lambda>r. Violation ?fp r
                   (if spec_classify e directory allowed ?fp r = FileNotFound
                    then ''File not found'' else ''Invalid import''))
              (filter (\<lambda>r. spec_classify e directory allowed ?fp r \<noteq> Compliant) ?refs)"
    by (simp add: foldl_import_step)
  have c1: "correct_imports ?st1 = correct_imports ?st
          @ map (CorrectImport ?fp)
              (filter (\<lambda>r. spec_classify e directory allowed ?fp r = Compliant) ?refs)"
    by (simp add: foldl_import_step)
  have refs: "case spec_classify e directory allowed ?fp r of
                FileNotFound \<Rightarrow> Violation ?fp r ''File not found'' \<in> set (violations ?result)
              | Compliant \<Rightarrow> CorrectImport ?fp r \<in> set (correct_imports ?result)
              | DisallowedPattern \<Rightarrow>
                  Violation ?fp r ''Invalid import'' \<in> set (violations ?result)"
    if r: "r \<in> set ?refs" for r
  proof (cases "spec_classify e directory allowed ?fp r")
    case FileNotFound
    with r have "Violation ?fp r ''File not found'' \<in> set (violations ?st1)"
      unfolding v1 by force
    with FileNotFound show ?thesis by (simp add: grows_violations [OF g1])
  next
    case Compliant
    with r have "CorrectImport ?fp r \<in> set (correct_imports ?st1)"
      unfolding c1 by force
    with Compliant show ?thesis by (simp add: grows_correct_imports [OF g1])
  next
    case DisallowedPattern
    with r have "Violation ?fp r ''Invalid import'' \<in> set (violations ?st1)"
      unfolding v1 by force
    with DisallowedPattern show ?thesis by (simp add: grows_violations [OF g1])
  qed
  have emb: "EmbeddedViolation ?fp ?codes \<in> set (embedded_violations ?result)"
    if "?codes \<noteq> []"
  proof -
    from that have "EmbeddedViolation ?fp ?codes \<in> set (embedded_violations ?st2)" by simp
    then show ?thesis by (rule grows_embedded_violations [OF g2])
  qed
  from eq refs emb show ?thesis
    unfolding Let_def by (intro conjI ballI impI)
qed

theorem test_in_file_name_analyzed_witness:
  "os_walk example_env ''/w/src'' =
     [] @ (''/w/src'', [''gen'', ''test''], [] @ ''App.test.tsx'' # [''a.css'', ''t.css''])
        # [(''/w/src/gen'', [], [''b.ts'', ''c.ts'', ''d.ts'']),
           (''/w/src/test'', [], [''Widget.tsx''])]
   \<and> contains ''App.test.tsx'' ''test'' \<and> \<not> contains ''/w/src'' ''test''
   \<and> Violation ''/w/src/App.test.tsx'' ''t.css'' ''Invalid import''
       \<in> set (violations (check_files example_env ''/w/src'' [] [] [''a.css'']))
   \<and> Violation ''/w/src/App.test.tsx'' ''m.css'' ''File not found''
       \<in> set (violations (check_files example_env ''/w/src'' [] [] [''a.css'']))
   \<and> CorrectImport ''/w/src/App.test.tsx'' ''a.css''
       \<in> set (correct_imports (check_files example_env ''/w/src'' [] [] [''a.css'']))
   \<and> EmbeddedViolation ''/w/src/App.test.tsx'' [''fff'']
       \<in> set (embedded_violations (check_files example_env ''/w/src'' [] [] [''a.css'']))"
proof -
  have p: "abspath (cwd example_env) (path_join ''/w/src'' ''App.test.tsx'')
      = ''/w/src/App.test.tsx''"
    by code_simp
  have h1: "os_walk example_env ''/w/src'' =
     [] @ (''/w/src'', [''gen'', ''test''], [] @ ''App.test.tsx'' # [''a.css'', ''t.css''])
        # [(''/w/src/gen'', [], [''b.ts'', ''c.ts'', ''d.ts'']),
           (''/w/src/test'', [], [''Widget.tsx''])]"
    by code_simp
  have h2: "\<not> (\<exists>exclude_dir \<in> set (map (abspath (cwd example_env)) []).
             startswith ''/w/src'' exclude_dir)"
    by simp
  have h3: "contains ''App.test.tsx'' ''test''" by code_simp
  have h4: "\<not> contains ''/w/src'' ''test''" by code_simp
  have h5: "endswith ''App.test.tsx'' ''.ts'' \<or> endswith ''App.test.tsx'' ''.tsx''"
    by code_simp
  have h6: "abspath (cwd example_env) (path_join ''/w/src'' ''App.test.tsx'')
      \<notin> set (map (abspath (cwd example_env)) [])"
    by simp
  have h7: "read_file example_env (abspath (cwd example_env) (path_join ''/w/src'' ''App.test.tsx''))
      = Inr ''import 'a.css';import 't.css';import 'm.css';#fff''"
    by code_simp
  have refs: "re_findall css_import_pattern ''import 'a.css';import 't.css';import 'm.css';#fff''
      = [''a.css'', ''t.css'', ''m.css'']"
    by code_simp
  have codes: "check_embedded_css ''import 'a.css';import 't.css';import 'm.css';#fff''
      = [''fff'']"
    by code_simp
  have c1: "spec_classify example_env ''/w/src'' [''a.css''] ''/w/src/App.test.tsx'' ''a.css''
      = Compliant"
    by code_simp
  have c2: "spec_classify example_env ''/w/src'' [''a.css''] ''/w/src/App.test.tsx'' ''t.css''
      = DisallowedPattern"
    by code_simp
  have c3: "spec_classify example_env ''/w/src'' [''a.css''] ''/w/src/App.test.tsx'' ''m.css''
      = FileNotFound"
    by code_simp
  note t = test_in_file_name_analyzed [where allowed = "[''a.css'']",
      OF h1 h2 h3 h4 h5 h6 h7, unfolded Let_def, THEN conjunct2]
  from t [THEN conjunct1]
  have a: "Violation ''/w/src/App.test.tsx'' ''t.css'' ''Invalid import''
       \<in> set (violations (check_files example_env ''/w/src'' [] [] [''a.css'']))
   \<and> Violation ''/w/src/App.test.tsx'' ''m.css'' ''File not found''
       \<in> set (violations (check_files example_env ''/w/src'' [] [] [''a.css'']))
   \<and> CorrectImport ''/w/src/App.test.tsx'' ''a.css''
       \<in> set (correct_imports (check_files example_env ''/w/src'' [] [] [''a.css'']))"
    by (simp add: p refs c1 c2 c3)
  from t [THEN conjunct2]
  have b: "EmbeddedViolation ''/w/src/App.test.tsx'' [''fff'']
       \<in> set (embedded_violations (check_files example_env ''/w/src'' [] [] [''a.css'']))"
    by (simp add: p codes)
  from h1 h3 h4 a b show ?thesis by (simp only: simp_thms)
qed

text \<open>
  C10. With an empty list of allowed suffixes (\<^verbatim>\<open>--allowed_css_patterns\<close> given without
  values) the scan returns no compliant import at all, and every reference that exists
  under one of its two candidates becomes a \<^verbatim>\<open>Violation\<close> with the reason
  \<^verbatim>\<open>Invalid import\<close>.
\<close>

theorem no_allowed_patterns:
  "correct_imports (check_files e directory exclude_files exclude_directories []) = []
   \<and> (allowed_css_patterns_flag a = Some [] \<longrightarrow>
        correct_imports
          (check_files e (directory_flag a)
             (flag_default [] (exclude_files_flag a))
             (flag_default [] (exclude_directories_flag a))
             (flag_default [''app.module.css''] (allowed_css_patterns_flag a))) = [])
   \<and> (path_exists e (path_join (dirname fp) r)
        \<or> path_exists e (path_join (abspath (cwd e) directory) r) \<longrightarrow>
        import_step e directory [] fp st r =
          st\<lparr>violations := violations st @ [Violation fp r ''Invalid import'']\<rparr>)"
proof (intro conjI impI)
  show "correct_imports (check_files e directory exclude_files exclude_directories []) = []"
    by (rule check_files_no_patterns)
next
  assume "allowed_css_patterns_flag a = Some []"
  then show "correct_imports
          (check_files e (directory_flag a)
             (flag_default [] (exclude_files_flag a))
             (flag_default [] (exclude_directories_flag a))
             (flag_default [''app.module.css''] (allowed_css_patterns_flag a))) = []"
    by (simp add: check_files_no_patterns)
next
  assume "path_exists e (path_join (dirname fp) r)
        \<or> path_exists e (path_join (abspath (cwd e) directory) r)"
  then have "spec_classify e directory [] fp r = DisallowedPattern"
    by (auto simp: spec_classify_def)
  then show "import_step e directory [] fp st r =
          st\<lparr>violations := violations st @ [Violation fp r ''Invalid import'']\<rparr>"
    by (simp add: import_step_verdict)
qed

theorem no_allowed_patterns_witness:
  "path_exists example_env (path_join (dirname ''/w/src/App.test.tsx'') ''a.css'')
   \<and> import_step example_env ''/w/src'' [] ''/w/src/App.test.tsx'' no_findings ''a.css'' =
       no_findings\<lparr>violations := [Violation ''/w/src/App.test.tsx'' ''a.css'' ''Invalid import'']\<rparr>
   \<and> correct_imports (check_files example_env ''/w/src'' [] [] []) = []
   \<and> allowed_css_patterns_flag ((example_argv ''/w/ok'')\<lparr>allowed_css_patterns_flag := Some []\<rparr>)
       = Some []
   \<and> correct_imports (check_files example_env ''/w/ok'' [] [] []) = []
   \<and> correct_imports (check_files example_env ''/w/ok'' [] [] [''app.module.css''])
       = [CorrectImport ''/w/ok/Ok.tsx'' ''./app.module.css'']"
proof -
  have h: "path_exists example_env (path_join (dirname ''/w/src/App.test.tsx'') ''a.css'')"
    by code_simp
  have f: "allowed_css_patterns_flag
      ((example_argv ''/w/ok'')\<lparr>allowed_css_patterns_flag := Some []\<rparr>) = Some []"
    by simp
  have d: "correct_imports (check_files example_env ''/w/ok'' [] [] [''app.module.css''])
       = [CorrectImport ''/w/ok/Ok.tsx'' ''./app.module.css'']"
    by code_simp
  note t = no_allowed_patterns [where e = example_env and directory = "''/w/src''"
      and fp = "''/w/src/App.test.tsx''" and r = "''a.css''" and st = no_findings
      and exclude_files = "[]" and exclude_directories = "[]"
      and a = "(example_argv ''/w/ok'')\<lparr>allowed_css_patterns_flag := Some []\<rparr>"]
  from t [THEN conjunct2, THEN conjunct2, rule_format, OF disjI1, OF h] t [THEN conjunct1]
    t [THEN conjunct2, THEN conjunct1, rule_format, OF f] h d
  show ?thesis by (simp add: no_findings_def example_argv_def)
qed

end
